theory Spec2Isabelle
  imports Main "HOL-Library.Sublist"
begin

section \<open>Python values\<close>

text \<open>
  The program is dynamically typed Python. The values that flow through it are the ones
  \<^verbatim>\<open>json.load\<close> and \<^verbatim>\<open>response.json()\<close> produce and the dictionaries the program builds
  from them: \<^verbatim>\<open>None\<close>, booleans, integers, strings, lists and dictionaries with string keys.
  A dictionary is an association list in insertion order (Python dictionaries keep it);
  a Python dictionary has no key twice, which \<open>well_formed\<close> below states.
  Floating-point numbers are not part of the model. Strings are lists of 8-bit characters.
\<close>

datatype pyval =
    PNone
  | PBool bool
  | PInt int
  | PStr string
  | PList "pyval list"
  | PDict "(string \<times> pyval) list"

text \<open>
  The exceptions the modelled code can raise. \<open>OutsideModel\<close> is not an exception: it
  marks the inputs on which Python produces a value this model has no term for (a
  floating-point number, a character beyond code point 255).
\<close>

datatype error =
    KeyError
  | TypeError
  | AttributeError
  | FileNotFoundError
  | IndexError
  | JSONDecodeError
  | RecursionError
  | ConnectionError
  | SMTPException
  | OutsideModel

text \<open>
  Python's \<^verbatim>\<open>==\<close> on these values. \<^verbatim>\<open>bool\<close> is a subclass of \<^verbatim>\<open>int\<close>, so \<^verbatim>\<open>True == 1\<close>.
  Lists are equal when they have the same length and equal elements in order.
  Dictionaries are equal when they have the same number of keys and every key of the
  left one is a key of the right one with an equal value: the order of insertion does
  not matter.
\<close>

function py_eq :: "pyval \<Rightarrow> pyval \<Rightarrow> bool" where
  "py_eq PNone y = (case y of PNone \<Rightarrow> True | _ \<Rightarrow> False)"
| "py_eq (PBool a) y =
     (case y of PBool b \<Rightarrow> a = b | PInt j \<Rightarrow> (if a then 1 else 0) = j | _ \<Rightarrow> False)"
| "py_eq (PInt i) y =
     (case y of PBool b \<Rightarrow> i = (if b then 1 else 0) | PInt j \<Rightarrow> i = j | _ \<Rightarrow> False)"
| "py_eq (PStr s) y = (case y of PStr t \<Rightarrow> s = t | _ \<Rightarrow> False)"
| "py_eq (PList xs) y =
     (case y of PList ys \<Rightarrow> list_all2 py_eq xs ys | _ \<Rightarrow> False)"
| "py_eq (PDict a) y =
     (case y of
        PDict b \<Rightarrow>
          length a = length b \<and>
          list_all (\<lambda>(k, v). case map_of b k of None \<Rightarrow> False | Some w \<Rightarrow> py_eq v w) a
      | _ \<Rightarrow> False)"
  by pat_completeness auto
termination
  by (relation "measure (\<lambda>(x, y). size x)") (auto simp: less_Suc_eq_le size_list_estimation')

text \<open>Dictionaries without a repeated key, at every depth.\<close>

fun well_formed :: "pyval \<Rightarrow> bool" where
  "well_formed (PList xs) = list_all well_formed xs"
| "well_formed (PDict a) = (distinct (map fst a) \<and> list_all (\<lambda>(k, v). well_formed v) a)"
| "well_formed _ = True"

text \<open>
  Truth value testing, as \<^verbatim>\<open>if x\<close> and \<^verbatim>\<open>not x\<close> do it: \<^verbatim>\<open>None\<close>, \<^verbatim>\<open>False\<close>, zero and the
  empty string, list and dictionary are false.
\<close>

fun truthy :: "pyval \<Rightarrow> bool" where
  "truthy PNone = False"
| "truthy (PBool b) = b"
| "truthy (PInt i) = (i \<noteq> 0)"
| "truthy (PStr s) = (s \<noteq> [])"
| "truthy (PList xs) = (xs \<noteq> [])"
| "truthy (PDict a) = (a \<noteq> [])"

text \<open>
  Indexing a sequence with an integer: negative indices count from the end, an index
  out of range raises \<^verbatim>\<open>IndexError\<close>.
\<close>

definition seq_index :: "'a list \<Rightarrow> int \<Rightarrow> error + 'a" where
  "seq_index xs i =
     (if 0 \<le> i \<and> i < int (length xs) then Inr (xs ! nat i)
      else if i < 0 \<and> - int (length xs) \<le> i then Inr (xs ! nat (int (length xs) + i))
      else Inl IndexError)"

text \<open>
  Subscription \<^verbatim>\<open>x[k]\<close>. A dictionary looks the key up (its keys are strings, so every
  other hashable key is missing, and a list or a dictionary is not hashable); a list and
  a string take an integer index (a boolean is an integer); nothing else can be
  subscripted.
\<close>

fun py_getitem :: "pyval \<Rightarrow> pyval \<Rightarrow> error + pyval" where
  "py_getitem (PDict a) k =
     (case k of
        PStr s \<Rightarrow> (case map_of a s of None \<Rightarrow> Inl KeyError | Some v \<Rightarrow> Inr v)
      | PList _ \<Rightarrow> Inl TypeError
      | PDict _ \<Rightarrow> Inl TypeError
      | _ \<Rightarrow> Inl KeyError)"
| "py_getitem (PList xs) k =
     (case k of
        PInt i \<Rightarrow> seq_index xs i
      | PBool b \<Rightarrow> seq_index xs (if b then 1 else 0)
      | _ \<Rightarrow> Inl TypeError)"
| "py_getitem (PStr s) k =
     (case k of
        PInt i \<Rightarrow> (case seq_index s i of Inl e \<Rightarrow> Inl e | Inr c \<Rightarrow> Inr (PStr [c]))
      | PBool b \<Rightarrow>
          (case seq_index s (if b then 1 else 0) of Inl e \<Rightarrow> Inl e | Inr c \<Rightarrow> Inr (PStr [c]))
      | _ \<Rightarrow> Inl TypeError)"
| "py_getitem _ k = Inl TypeError"

text \<open>
  Iteration \<^verbatim>\<open>for x in v\<close>: a list yields its elements, a dictionary its keys, a string
  its characters; \<^verbatim>\<open>None\<close>, booleans and integers are not iterable.
\<close>

fun py_iter :: "pyval \<Rightarrow> error + pyval list" where
  "py_iter (PList xs) = Inr xs"
| "py_iter (PDict a) = Inr (map (\<lambda>(k, v). PStr k) a)"
| "py_iter (PStr s) = Inr (map (\<lambda>c. PStr [c]) s)"
| "py_iter _ = Inl TypeError"

section \<open>Strings\<close>

text \<open>
  \<^verbatim>\<open>str.lower()\<close> on the code points 0 to 255: the letters A to Z and the Latin-1 capital
  letters (192 to 222 without the multiplication sign 215) move up by 32, every other
  character stays.
\<close>

definition lower_char :: "char \<Rightarrow> char" where
  "lower_char c =
     (let n = (of_char c :: nat)
      in if (65 \<le> n \<and> n \<le> 90) \<or> (192 \<le> n \<and> n \<le> 222 \<and> n \<noteq> 215)
         then char_of (n + 32) else c)"

definition lower :: "string \<Rightarrow> string" where
  "lower s = map lower_char s"

text \<open>
  \<^verbatim>\<open>sub in s\<close> for strings: \<^verbatim>\<open>sub\<close> occurs in \<^verbatim>\<open>s\<close> at some position, searched from the
  left.
\<close>

fun str_in :: "string \<Rightarrow> string \<Rightarrow> bool" where
  "str_in sub [] = (sub = [])"
| "str_in sub (c # cs) = (if prefix sub (c # cs) then True else str_in sub cs)"

text \<open>The method call \<^verbatim>\<open>v.lower()\<close>: only a string has the method.\<close>

fun py_lower :: "pyval \<Rightarrow> error + string" where
  "py_lower (PStr s) = Inr (lower s)"
| "py_lower _ = Inl AttributeError"

text \<open>Decimal digits of an integer, as \<^verbatim>\<open>str(n)\<close> and an f-string write it.\<close>

function nat_digits :: "nat \<Rightarrow> string" where
  "nat_digits n =
     (if n < 10 then [char_of (48 + n)]
      else nat_digits (n div 10) @ [char_of (48 + n mod 10)])"
  by pat_completeness auto
termination
  by (relation "measure id") auto

declare nat_digits.simps [simp del]

definition str_of_int :: "int \<Rightarrow> string" where
  "str_of_int i = (if i < 0 then CHR ''-'' # nat_digits (nat (- i)) else nat_digits (nat i))"

section \<open>The filter\<close>

text \<open>
  \<^verbatim>\<open>any(word.lower() in job[field].lower() for word in words)\<close>: the generator is consumed
  from the left and \<^verbatim>\<open>any\<close> stops at the first true element. Each element evaluates
  \<^verbatim>\<open>job[field].lower()\<close> anew, so nothing is looked up when \<^verbatim>\<open>words\<close> is empty.
\<close>

fun any_in_field :: "string list \<Rightarrow> pyval \<Rightarrow> string \<Rightarrow> error + bool" where
  "any_in_field [] job field = Inr False"
| "any_in_field (word # words) job field =
     (case py_getitem job (PStr field) of
        Inl e \<Rightarrow> Inl e
      | Inr v \<Rightarrow>
          (case py_lower v of
             Inl e \<Rightarrow> Inl e
           | Inr s \<Rightarrow>
               if str_in (lower word) s then Inr True
               else any_in_field words job field))"

text \<open>
  The condition of the comprehension: \<^verbatim>\<open>any(...title...) and any(...location...)\<close>;
  \<^verbatim>\<open>and\<close> does not evaluate its right side when the left one is false.
\<close>

definition job_matches :: "pyval \<Rightarrow> string list \<Rightarrow> string list \<Rightarrow> error + bool" where
  "job_matches job keywords locations =
     (case any_in_field keywords job ''title'' of
        Inl e \<Rightarrow> Inl e
      | Inr False \<Rightarrow> Inr False
      | Inr True \<Rightarrow> any_in_field locations job ''location'')"

text \<open>
  \<^verbatim>\<open>filtered_jobs = [job for job in jobs if ...]\<close>: the jobs are tested in order, and an
  exception in a test ends the comprehension.
\<close>

fun filter_jobs :: "pyval list \<Rightarrow> string list \<Rightarrow> string list \<Rightarrow> error + pyval list" where
  "filter_jobs [] keywords locations = Inr []"
| "filter_jobs (job # jobs) keywords locations =
     (case job_matches job keywords locations of
        Inl e \<Rightarrow> Inl e
      | Inr keep \<Rightarrow>
          (case filter_jobs jobs keywords locations of
             Inl e \<Rightarrow> Inl e
           | Inr filtered_jobs \<Rightarrow> Inr (if keep then job # filtered_jobs else filtered_jobs)))"

text \<open>
  The words of the specification, for comparison with the code: a job listing is a
  record of the four fields firm, title, location and link, each a string; a word is a
  case-insensitive substring of a text when the lower-cased word occurs somewhere in the
  lower-cased text.
\<close>

definition job_listing :: "pyval \<Rightarrow> bool" where
  "job_listing job =
     (case job of
        PDict a \<Rightarrow>
          distinct (map fst a) \<and>
          set (map fst a) = {''firm'', ''title'', ''location'', ''link''} \<and>
          list_all (\<lambda>(k, v). case v of PStr s \<Rightarrow> True | _ \<Rightarrow> False) a
      | _ \<Rightarrow> False)"

definition field_of :: "pyval \<Rightarrow> string \<Rightarrow> string" where
  "field_of job field = (case py_getitem job (PStr field) of Inr (PStr s) \<Rightarrow> s | _ \<Rightarrow> [])"

definition ci_substring :: "string \<Rightarrow> string \<Rightarrow> bool" where
  "ci_substring word text \<longleftrightarrow> (\<exists>before after. lower text = before @ lower word @ after)"

definition spec_keeps :: "string list \<Rightarrow> string list \<Rightarrow> pyval \<Rightarrow> bool" where
  "spec_keeps keywords locations job \<longleftrightarrow>
     (\<exists>keyword\<in>set keywords. ci_substring keyword (field_of job ''title'')) \<and>
     (\<exists>location\<in>set locations. ci_substring location (field_of job ''location''))"

text \<open>Two listings are the same record when they agree on all four fields.\<close>

definition same_listing :: "pyval \<Rightarrow> pyval \<Rightarrow> bool" where
  "same_listing x y \<longleftrightarrow>
     list_all (\<lambda>f. field_of x f = field_of y f) [''firm'', ''title'', ''location'', ''link'']"

section \<open>The diff engine\<close>

text \<open>
  \<^verbatim>\<open>x in xs\<close> for a list \<^verbatim>\<open>xs\<close>: the elements are compared with \<^verbatim>\<open>==\<close> from the left, and
  the search stops at the first equal one.
\<close>

fun py_in :: "pyval \<Rightarrow> pyval list \<Rightarrow> bool" where
  "py_in x [] = False"
| "py_in x (y # ys) = (if py_eq y x then True else py_in x ys)"

text \<open>
  \<^verbatim>\<open>new_jobs = [job for job in jobs if job not in seen_jobs]\<close>
\<close>

fun identify_new_jobs :: "pyval list \<Rightarrow> pyval list \<Rightarrow> pyval list" where
  "identify_new_jobs [] seen_jobs = []"
| "identify_new_jobs (job # jobs) seen_jobs =
     (if \<not> py_in job seen_jobs then job # identify_new_jobs jobs seen_jobs
      else identify_new_jobs jobs seen_jobs)"

section \<open>JSON text\<close>

text \<open>
  \<^verbatim>\<open>json.dump\<close> with its default settings: the separators are \<^verbatim>\<open>", "\<close> and \<^verbatim>\<open>": "\<close>, the keys
  of a dictionary are written in insertion order, and a string is written between double
  quotes with every character outside the printable ASCII range, the double quote and
  the backslash escaped: the short escapes for backspace, tab, newline, form feed and
  carriage return, and four lower-case hexadecimal digits after \<^verbatim>\<open>\u\<close> otherwise. The
  limit that recent interpreters put on the number of digits of an integer is not
  modelled.
\<close>

definition hex_digit :: "nat \<Rightarrow> char" where
  "hex_digit d = (if d < 10 then char_of (48 + d) else char_of (87 + d))"

definition escape_char :: "char \<Rightarrow> string" where
  "escape_char c =
     (let n = (of_char c :: nat)
      in if c = CHR 0x22 then [CHR 0x5C, CHR 0x22]
         else if c = CHR 0x5C then [CHR 0x5C, CHR 0x5C]
         else if c = CHR 0x0A then [CHR 0x5C, CHR ''n'']
         else if c = CHR 0x0D then [CHR 0x5C, CHR ''r'']
         else if c = CHR 0x09 then [CHR 0x5C, CHR ''t'']
         else if c = CHR 0x08 then [CHR 0x5C, CHR ''b'']
         else if c = CHR 0x0C then [CHR 0x5C, CHR ''f'']
         else if 32 \<le> n \<and> n \<le> 126 then [c]
         else [CHR 0x5C, CHR ''u'', CHR ''0'', CHR ''0'', hex_digit (n div 16), hex_digit (n mod 16)])"

definition encode_string :: "string \<Rightarrow> string" where
  "encode_string s = CHR 0x22 # concat (map escape_char s) @ [CHR 0x22]"

fun join :: "string \<Rightarrow> string list \<Rightarrow> string" where
  "join sep [] = []"
| "join sep [x] = x"
| "join sep (x # y # ys) = x @ sep @ join sep (y # ys)"


text \<open>
  \<^verbatim>\<open>json.load\<close>: the decoder of the standard library. White space is blank, tab, newline
  and carriage return.
\<close>

definition is_ws :: "char \<Rightarrow> bool" where
  "is_ws c \<longleftrightarrow> c = CHR '' '' \<or> c = CHR 0x09 \<or> c = CHR 0x0A \<or> c = CHR 0x0D"

definition skip_ws :: "string \<Rightarrow> string" where
  "skip_ws s = dropWhile is_ws s"

definition is_digit :: "char \<Rightarrow> bool" where
  "is_digit c \<longleftrightarrow> 48 \<le> (of_char c :: nat) \<and> (of_char c :: nat) \<le> 57"

definition hex_val :: "char \<Rightarrow> nat option" where
  "hex_val c =
     (let n = (of_char c :: nat)
      in if 48 \<le> n \<and> n \<le> 57 then Some (n - 48)
         else if 97 \<le> n \<and> n \<le> 102 then Some (n - 87)
         else if 65 \<le> n \<and> n \<le> 70 then Some (n - 55)
         else None)"

text \<open>The character a short escape stands for; \<^verbatim>\<open>\u\<close> is handled by the caller.\<close>

definition unescape :: "char \<Rightarrow> char option" where
  "unescape e =
     (if e = CHR 0x22 then Some (CHR 0x22)
      else if e = CHR 0x5C then Some (CHR 0x5C)
      else if e = CHR ''/'' then Some (CHR ''/'')
      else if e = CHR ''b'' then Some (CHR 0x08)
      else if e = CHR ''f'' then Some (CHR 0x0C)
      else if e = CHR ''n'' then Some (CHR 0x0A)
      else if e = CHR ''r'' then Some (CHR 0x0D)
      else if e = CHR ''t'' then Some (CHR 0x09)
      else None)"

text \<open>The code point written by the four hexadecimal digits of a \<^verbatim>\<open>\u\<close> escape.\<close>

definition hex4_val :: "char \<Rightarrow> char \<Rightarrow> char \<Rightarrow> char \<Rightarrow> nat option" where
  "hex4_val h1 h2 h3 h4 =
     (case hex_val h1 of None \<Rightarrow> None | Some d1 \<Rightarrow>
      case hex_val h2 of None \<Rightarrow> None | Some d2 \<Rightarrow>
      case hex_val h3 of None \<Rightarrow> None | Some d3 \<Rightarrow>
      case hex_val h4 of None \<Rightarrow> None | Some d4 \<Rightarrow>
        Some (4096 * d1 + 256 * d2 + 16 * d3 + d4))"

text \<open>
  The body of a string, after the opening quote, up to and including the closing quote.
  A raw control character is refused (the decoder is strict by default).
\<close>

fun scan_string :: "string \<Rightarrow> error + (string \<times> string)" where
  "scan_string [] = Inl JSONDecodeError"
| "scan_string (c # cs) =
     (if c = CHR 0x22 then Inr ([], cs)
      else if c = CHR 0x5C then
        (case cs of
           [] \<Rightarrow> Inl JSONDecodeError
         | e # cs1 \<Rightarrow>
             if e = CHR ''u'' then
               (case cs1 of
                  h1 # h2 # h3 # h4 # cs2 \<Rightarrow>
                    (case hex4_val h1 h2 h3 h4 of
                       None \<Rightarrow> Inl JSONDecodeError
                     | Some n \<Rightarrow>
                         if n < 256 then
                           (case scan_string cs2 of
                              Inl err \<Rightarrow> Inl err
                            | Inr (t, r) \<Rightarrow> Inr (char_of n # t, r))
                         else Inl OutsideModel)
                | _ \<Rightarrow> Inl JSONDecodeError)
             else
               (case unescape e of
                  None \<Rightarrow> Inl JSONDecodeError
                | Some ch \<Rightarrow>
                    (case scan_string cs1 of
                       Inl err \<Rightarrow> Inl err
                     | Inr (t, r) \<Rightarrow> Inr (ch # t, r))))
      else if (of_char c :: nat) < 32 then Inl JSONDecodeError
      else
        (case scan_string cs of
           Inl err \<Rightarrow> Inl err
         | Inr (t, r) \<Rightarrow> Inr (c # t, r)))"

text \<open>
  A number: an optional minus sign, then either a single zero or a digit from 1 to 9
  followed by any digits. A fraction or an exponent after it makes the number a
  floating-point one.
\<close>

fun scan_digits :: "nat \<Rightarrow> string \<Rightarrow> nat \<times> string" where
  "scan_digits acc [] = (acc, [])"
| "scan_digits acc (c # cs) =
     (if is_digit c then scan_digits (10 * acc + (of_char c - 48)) cs else (acc, c # cs))"


definition starts_fraction :: "string \<Rightarrow> bool" where
  "starts_fraction s =
     (case s of
        c # d # _ \<Rightarrow>
          (c = CHR ''.'' \<and> is_digit d) \<or>
          ((c = CHR ''e'' \<or> c = CHR ''E'') \<and>
             (is_digit d \<or>
              ((d = CHR ''+'' \<or> d = CHR ''-'') \<and>
                 (case tl (tl s) of x # _ \<Rightarrow> is_digit x | [] \<Rightarrow> False))))
      | _ \<Rightarrow> False)"

definition scan_natural :: "string \<Rightarrow> (nat \<times> string) option" where
  "scan_natural s =
     (case s of
        [] \<Rightarrow> None
      | c # cs \<Rightarrow>
          if c = CHR ''0'' then Some (0, cs)
          else if is_digit c then Some (scan_digits 0 (c # cs))
          else None)"

definition scan_number :: "string \<Rightarrow> error + (pyval \<times> string)" where
  "scan_number s =
     (let negative = (s \<noteq> [] \<and> hd s = CHR ''-'')
      in case scan_natural (if negative then tl s else s) of
           None \<Rightarrow>
             if prefix ''NaN'' s \<or> prefix ''Infinity'' s \<or> prefix ''-Infinity'' s
             then Inl OutsideModel else Inl JSONDecodeError
         | Some (n, r) \<Rightarrow>
             if starts_fraction r then Inl OutsideModel
             else Inr (PInt (if negative then - int n else int n), r))"

text \<open>
  \<^verbatim>\<open>dict(pairs)\<close>: a key that comes again keeps its place and takes the later value.
\<close>

definition dict_set :: "(string \<times> pyval) list \<Rightarrow> string \<Rightarrow> pyval \<Rightarrow> (string \<times> pyval) list" where
  "dict_set a k v =
     (if k \<in> set (map fst a) then map (\<lambda>(k', v'). if k' = k then (k', v) else (k', v')) a
      else a @ [(k, v)])"

definition dict_of_pairs :: "(string \<times> pyval) list \<Rightarrow> (string \<times> pyval) list" where
  "dict_of_pairs pairs = foldl (\<lambda>a (k, v). dict_set a k v) [] pairs"

text \<open>
  The scanner proper. The first argument bounds the number of nested calls; \<open>json_loads\<close>
  starts it with more than any text can use. \<open>parse_array\<close> reads the elements of an
  array from the first one to the closing bracket, \<open>parse_object\<close> the members of an
  object from the quote of the first key to the closing brace.
\<close>

fun parse_value :: "nat \<Rightarrow> string \<Rightarrow> error + (pyval \<times> string)"
  and parse_array :: "nat \<Rightarrow> string \<Rightarrow> error + (pyval list \<times> string)"
  and parse_object :: "nat \<Rightarrow> string \<Rightarrow> error + ((string \<times> pyval) list \<times> string)"
where
  "parse_value 0 s = Inl RecursionError"
| "parse_value (Suc n) s =
     (case s of
        [] \<Rightarrow> Inl JSONDecodeError
      | c # cs \<Rightarrow>
          if c = CHR 0x22 then
            (case scan_string cs of
               Inl err \<Rightarrow> Inl err
             | Inr (t, r) \<Rightarrow> Inr (PStr t, r))
          else if c = CHR ''{'' then
            (if prefix ''}'' (skip_ws cs) then Inr (PDict [], tl (skip_ws cs))
             else
               (case parse_object n (skip_ws cs) of
                  Inl err \<Rightarrow> Inl err
                | Inr (pairs, r) \<Rightarrow> Inr (PDict (dict_of_pairs pairs), r)))
          else if c = CHR ''['' then
            (if prefix '']'' (skip_ws cs) then Inr (PList [], tl (skip_ws cs))
             else
               (case parse_array n (skip_ws cs) of
                  Inl err \<Rightarrow> Inl err
                | Inr (vs, r) \<Rightarrow> Inr (PList vs, r)))
          else if prefix ''null'' s then Inr (PNone, drop 4 s)
          else if prefix ''true'' s then Inr (PBool True, drop 4 s)
          else if prefix ''false'' s then Inr (PBool False, drop 5 s)
          else scan_number s)"
| "parse_array 0 s = Inl RecursionError"
| "parse_array (Suc n) s =
     (case parse_value n s of
        Inl err \<Rightarrow> Inl err
      | Inr (v, r) \<Rightarrow>
          (case skip_ws r of
             [] \<Rightarrow> Inl JSONDecodeError
           | c # r1 \<Rightarrow>
               if c = CHR '']'' then Inr ([v], r1)
               else if c = CHR '','' then
                 (case parse_array n (skip_ws r1) of
                    Inl err \<Rightarrow> Inl err
                  | Inr (vs, r2) \<Rightarrow> Inr (v # vs, r2))
               else Inl JSONDecodeError))"
| "parse_object 0 s = Inl RecursionError"
| "parse_object (Suc n) s =
     (case s of
        [] \<Rightarrow> Inl JSONDecodeError
      | q # cs \<Rightarrow>
          if q \<noteq> CHR 0x22 then Inl JSONDecodeError
          else
            (case scan_string cs of
               Inl err \<Rightarrow> Inl err
             | Inr (key, r) \<Rightarrow>
                 if \<not> prefix '':'' (skip_ws r) then Inl JSONDecodeError
                 else
                   (case parse_value n (skip_ws (tl (skip_ws r))) of
                      Inl err \<Rightarrow> Inl err
                    | Inr (v, r1) \<Rightarrow>
                        (case skip_ws r1 of
                           [] \<Rightarrow> Inl JSONDecodeError
                         | c # r2 \<Rightarrow>
                             if c = CHR ''}'' then Inr ([(key, v)], r2)
                             else if c = CHR '','' then
                               (case parse_object n (skip_ws r2) of
                                  Inl err \<Rightarrow> Inl err
                                | Inr (pairs, r3) \<Rightarrow> Inr ((key, v) # pairs, r3))
                             else Inl JSONDecodeError))))"

definition json_loads :: "string \<Rightarrow> error + pyval" where
  "json_loads text =
     (case parse_value (2 * length text + 1) (skip_ws text) of
        Inl err \<Rightarrow> Inl err
      | Inr (v, r) \<Rightarrow> if skip_ws r = [] then Inr v else Inl JSONDecodeError)"


section \<open>Persistence\<close>




section \<open>The notifier\<close>

text \<open>
  What the notifier does to the world is a trace of events: every read of an environment
  variable and every command sent over the SMTP session, in order. The SMTP server is a
  parameter that says which commands succeed; a command that fails raises an exception.
  The conversion of a value inside an f-string (the built-in \<^verbatim>\<open>format\<close>) is a parameter
  too.
\<close>

record message =
  msg_subject :: string
  msg_from :: string
  msg_to :: string
  msg_body :: string

datatype smtp_command =
    Connect string string
  | StartTls
  | Login string string
  | SendMessage message
  | Quit

datatype event = EnvironRead string | Smtp smtp_command

type_synonym 'a effect = "event list \<times> (error + 'a)"

text \<open>Sequencing: the second step runs when the first one has not raised.\<close>

fun and_then :: "'a effect \<Rightarrow> ('a \<Rightarrow> 'b effect) \<Rightarrow> 'b effect" where
  "and_then (t, Inl e) f = (t, Inl e)"
| "and_then (t, Inr x) f = (case f x of (t', r) \<Rightarrow> (t @ t', r))"

text \<open>\<^verbatim>\<open>os.environ[name]\<close>\<close>

definition environ :: "(string \<rightharpoonup> string) \<Rightarrow> string \<Rightarrow> string effect" where
  "environ env name =
     ([EnvironRead name], case env name of None \<Rightarrow> Inl KeyError | Some v \<Rightarrow> Inr v)"

definition smtp_do :: "(smtp_command \<Rightarrow> bool) \<Rightarrow> smtp_command \<Rightarrow> unit effect" where
  "smtp_do server cmd = ([Smtp cmd], if server cmd then Inr () else Inl SMTPException)"

text \<open>
  Leaving the \<^verbatim>\<open>with\<close> block sends \<^verbatim>\<open>QUIT\<close>, also when the block has raised.
\<close>

definition with_quit :: "(smtp_command \<Rightarrow> bool) \<Rightarrow> unit effect \<Rightarrow> unit effect" where
  "with_quit server block =
     (case block of
        (t, Inl e) \<Rightarrow> (t @ [Smtp Quit], Inl e)
      | (t, Inr u) \<Rightarrow> (t @ [Smtp Quit], if server Quit then Inr () else Inl SMTPException))"

text \<open>
  \<^verbatim>\<open>f"{job['firm']} - {job['title']} - {job['location']}\n{job['link']}"\<close>
\<close>

definition job_line :: "(pyval \<Rightarrow> string) \<Rightarrow> pyval \<Rightarrow> error + string" where
  "job_line fmt job =
     (case py_getitem job (PStr ''firm'') of
        Inl e \<Rightarrow> Inl e
      | Inr firm \<Rightarrow>
     (case py_getitem job (PStr ''title'') of
        Inl e \<Rightarrow> Inl e
      | Inr title \<Rightarrow>
     (case py_getitem job (PStr ''location'') of
        Inl e \<Rightarrow> Inl e
      | Inr location \<Rightarrow>
     (case py_getitem job (PStr ''link'') of
        Inl e \<Rightarrow> Inl e
      | Inr link \<Rightarrow>
          Inr (fmt firm @ '' - '' @ fmt title @ '' - '' @ fmt location @ [CHR 0x0A] @ fmt link)))))"

fun job_lines :: "(pyval \<Rightarrow> string) \<Rightarrow> pyval list \<Rightarrow> error + string list" where
  "job_lines fmt [] = Inr []"
| "job_lines fmt (job # jobs) =
     (case job_line fmt job of
        Inl e \<Rightarrow> Inl e
      | Inr line \<Rightarrow>
          (case job_lines fmt jobs of
             Inl e \<Rightarrow> Inl e
           | Inr lines \<Rightarrow> Inr (line # lines)))"

text \<open>
  \<^verbatim>\<open>send_email_notification\<close>: the guard \<^verbatim>\<open>if not jobs: return\<close> comes before everything
  else. After it, in the order of the source: the sender and the recipient are read from
  the environment, the body is composed, host and port are read, the session is opened,
  and inside the session \<^verbatim>\<open>starttls\<close>, the read of the password, \<^verbatim>\<open>login\<close> and
  \<^verbatim>\<open>send_message\<close>.
\<close>

definition send_email_notification ::
  "(pyval \<Rightarrow> string) \<Rightarrow> (string \<rightharpoonup> string) \<Rightarrow> (smtp_command \<Rightarrow> bool) \<Rightarrow> pyval list \<Rightarrow> unit effect"
where
  "send_email_notification fmt env server jobs =
     (if jobs = [] then ([], Inr ())
      else
        and_then (environ env ''MAIL_SENDER'') (\<lambda>sender.
        and_then (environ env ''MAIL_RECIPIENT'') (\<lambda>recipient.
        and_then ([], job_lines fmt jobs) (\<lambda>lines.
        and_then (environ env ''MAIL_HOST'') (\<lambda>host.
        and_then (environ env ''MAIL_PORT'') (\<lambda>port.
        and_then (smtp_do server (Connect host port)) (\<lambda>_.
          with_quit server
            (and_then (smtp_do server StartTls) (\<lambda>_.
             and_then (environ env ''MAIL_PASSWORD'') (\<lambda>password.
             and_then (smtp_do server (Login sender password)) (\<lambda>_.
               smtp_do server
                 (SendMessage
                    \<lparr>msg_subject = ''New MLE Job Openings'', msg_from = sender,
                     msg_to = recipient, msg_body = join [CHR 0x0A] lines\<rparr>))))))))))))"

section \<open>The API collector and the normalizer\<close>

text \<open>
  An HTTP response, as far as the collector looks at it: the status code and what the
  method \<^verbatim>\<open>response.json()\<close> returns or raises. \<^verbatim>\<open>requests.get\<close> is a parameter.
\<close>

record response =
  status_code :: int
  json :: "error + pyval"

text \<open>
  \<^verbatim>\<open>call_job_listing_api\<close> returns the decoded body when the status is 200. Otherwise it
  prints a line and falls off the end of the function, which returns \<^verbatim>\<open>None\<close>. The first
  component is what was printed.
\<close>

definition call_job_listing_api ::
  "(pyval \<Rightarrow> pyval \<Rightarrow> error + response) \<Rightarrow> pyval \<Rightarrow> pyval \<Rightarrow> string list \<times> (error + pyval)"
where
  "call_job_listing_api get url headers =
     (case get url headers of
        Inl e \<Rightarrow> ([], Inl e)
      | Inr response \<Rightarrow>
          if status_code response = 200 then ([], json response)
          else
            ([''Failed to fetch data. HTTP Status Code: '' @ str_of_int (status_code response)],
             Inr PNone))"

text \<open>
  One turn of the loop of \<^verbatim>\<open>process_api_response\<close>: the dictionary appended for one
  element. The entries are evaluated in order; the link reads \<^verbatim>\<open>params["link"]\<close> for
  the test and, when it is true, again for the subscription.
\<close>

definition normalize_job :: "pyval \<Rightarrow> string \<Rightarrow> pyval \<Rightarrow> error + pyval" where
  "normalize_job job firm_name params =
     (case py_getitem params (PStr ''title'') of
        Inl e \<Rightarrow> Inl e
      | Inr title_key \<Rightarrow>
     (case py_getitem job title_key of
        Inl e \<Rightarrow> Inl e
      | Inr title \<Rightarrow>
     (case py_getitem params (PStr ''location'') of
        Inl e \<Rightarrow> Inl e
      | Inr location_key \<Rightarrow>
     (case py_getitem job location_key of
        Inl e \<Rightarrow> Inl e
      | Inr location \<Rightarrow>
     (case py_getitem params (PStr ''link'') of
        Inl e \<Rightarrow> Inl e
      | Inr link_key \<Rightarrow>
     (case (if truthy link_key then py_getitem job link_key else Inr (PStr [])) of
        Inl e \<Rightarrow> Inl e
      | Inr link \<Rightarrow>
          Inr (PDict [(''firm'', PStr firm_name), (''title'', title),
                      (''location'', location), (''link'', link)])))))))"

text \<open>The loop \<^verbatim>\<open>for job in data: jobs.append({...})\<close>, with the list built so far.\<close>

fun append_jobs :: "pyval list \<Rightarrow> string \<Rightarrow> pyval \<Rightarrow> pyval list \<Rightarrow> error + pyval list" where
  "append_jobs [] firm_name params jobs = Inr jobs"
| "append_jobs (job # rest) firm_name params jobs =
     (case normalize_job job firm_name params of
        Inl e \<Rightarrow> Inl e
      | Inr j \<Rightarrow> append_jobs rest firm_name params (jobs @ [j]))"

definition is_dict :: "pyval \<Rightarrow> bool" where
  "is_dict v = (case v of PDict _ \<Rightarrow> True | _ \<Rightarrow> False)"

text \<open>
  \<^verbatim>\<open>
  jobs = []
  if isinstance(data, dict):
      data = data[params["key"]]
  for job in data: ...
  return jobs
  \<close>
\<close>

definition process_api_response :: "pyval \<Rightarrow> string \<Rightarrow> pyval \<Rightarrow> error + pyval list" where
  "process_api_response data firm_name params =
     (case (if is_dict data
            then (case py_getitem params (PStr ''key'') of
                    Inl e \<Rightarrow> Inl e
                  | Inr key \<Rightarrow> py_getitem data key)
            else Inr data) of
        Inl e \<Rightarrow> Inl e
      | Inr data' \<Rightarrow>
          (case py_iter data' of
             Inl e \<Rightarrow> Inl e
           | Inr items \<Rightarrow> append_jobs items firm_name params []))"

text \<open>
  The body of the loop over the API targets in the main program: the result of the
  collector goes to the normalizer as it is, then to the filter.
\<close>

definition api_target_jobs ::
  "(pyval \<Rightarrow> pyval \<Rightarrow> error + response) \<Rightarrow> string \<Rightarrow> pyval \<Rightarrow> string list \<Rightarrow> string list \<Rightarrow>
     string list \<times> (error + pyval list)"
where
  "api_target_jobs get firm params keywords locations =
     (case py_getitem params (PStr ''url'') of
        Inl e \<Rightarrow> ([], Inl e)
      | Inr url \<Rightarrow>
     (case py_getitem params (PStr ''headers'') of
        Inl e \<Rightarrow> ([], Inl e)
      | Inr headers \<Rightarrow>
     (case call_job_listing_api get url headers of
        (out, Inl e) \<Rightarrow> (out, Inl e)
      | (out, Inr data) \<Rightarrow>
          (out,
           case process_api_response data firm params of
             Inl e \<Rightarrow> Inl e
           | Inr jobs \<Rightarrow> filter_jobs jobs keywords locations))))"

text \<open>
  The words of the specification for the normalizer: every element of the listing array
  becomes a record of the firm and of the element's entries under the configured title,
  location and link fields.
\<close>

definition entry_of :: "pyval \<Rightarrow> string \<Rightarrow> pyval" where
  "entry_of element key = (case py_getitem element (PStr key) of Inr v \<Rightarrow> v | Inl e \<Rightarrow> PNone)"

definition spec_record :: "string \<Rightarrow> string \<Rightarrow> string \<Rightarrow> string \<Rightarrow> pyval \<Rightarrow> pyval" where
  "spec_record firm_name title_key location_key link_key element =
     PDict [(''firm'', PStr firm_name),
            (''title'', entry_of element title_key),
            (''location'', entry_of element location_key),
            (''link'', entry_of element link_key)]"

definition api_element :: "string \<Rightarrow> string \<Rightarrow> string \<Rightarrow> pyval \<Rightarrow> bool" where
  "api_element title_key location_key link_key element \<longleftrightarrow>
     list_all (\<lambda>k. \<not> isl (py_getitem element (PStr k))) [title_key, location_key, link_key]"

section \<open>Equality\<close>

lemma py_in_iff: "py_in x ys \<longleftrightarrow> (\<exists>y\<in>set ys. py_eq y x)"
  by (induction ys) auto

lemma py_eq_refl: "well_formed v \<Longrightarrow> py_eq v v"
proof (induction v)
  case (PList xs)
  then show ?case by (simp add: list_all2_same list_all_iff)
next
  case (PDict a)
  have "\<And>k v. (k, v) \<in> set a \<Longrightarrow> map_of a k = Some v"
    using PDict.prems by simp
  with PDict show ?case
    by (fastforce simp: list_all_iff)
qed simp_all

lemma identify_new_jobs_filter:
  "identify_new_jobs jobs seen = filter (\<lambda>j. \<not> (\<exists>s\<in>set seen. py_eq s j)) jobs"
  by (induction jobs) (simp_all add: py_in_iff)

lemma job_listing_field:
  assumes "job_listing job" and "f \<in> {''firm'', ''title'', ''location'', ''link''}"
  shows "\<exists>s. py_getitem job (PStr f) = Inr (PStr s)"
proof -
  from assms(1) obtain a where a: "job = PDict a" "set (map fst a) = {''firm'', ''title'', ''location'', ''link''}"
    "list_all (\<lambda>(k, v). case v of PStr s \<Rightarrow> True | _ \<Rightarrow> False) a"
    by (auto simp: job_listing_def split: pyval.splits)
  from a(2) assms(2) have "f \<in> fst ` set a" by simp
  then obtain v where v: "map_of a f = Some v"
    by (metis map_of_eq_None_iff not_Some_eq)
  then have "(f, v) \<in> set a" by (rule map_of_SomeD)
  with a(3) obtain s where "v = PStr s"
    by (auto simp: list_all_iff split: pyval.splits)
  with a(1) v show ?thesis by simp
qed

lemma job_listing_lookup:
  assumes x: "job_listing (PDict a)" and f: "f \<in> {''firm'', ''title'', ''location'', ''link''}"
  shows "map_of a f = Some (PStr (field_of (PDict a) f))"
proof -
  from job_listing_field [OF x f] obtain s where "py_getitem (PDict a) (PStr f) = Inr (PStr s)"
    by blast
  then show ?thesis
    by (simp add: field_of_def split: option.splits)
qed

lemma job_listing_length:
  assumes "job_listing (PDict a)" and "job_listing (PDict b)"
  shows "length a = length b"
proof -
  from assms have d: "distinct (map fst a)" "distinct (map fst b)"
    and s: "set (map fst a) = set (map fst b)"
    by (simp_all add: job_listing_def)
  have "card (set (map fst a)) = length (map fst a)" using d(1) by (rule distinct_card)
  moreover have "card (set (map fst b)) = length (map fst b)" using d(2) by (rule distinct_card)
  ultimately have "length (map fst a) = length (map fst b)" using s by metis
  then show ?thesis by (simp only: length_map)
qed

lemma job_listing_keys:
  "job_listing (PDict a) \<Longrightarrow> (k, v) \<in> set a \<Longrightarrow> k \<in> {''firm'', ''title'', ''location'', ''link''} \<and> map_of a k = Some v"
proof -
  assume j: "job_listing (PDict a)" and kv: "(k, v) \<in> set a"
  from j have d: "distinct (map fst a)" and s: "set (map fst a) = {''firm'', ''title'', ''location'', ''link''}"
    by (simp_all add: job_listing_def)
  from kv have "k \<in> set (map fst a)" by (metis fst_conv image_eqI set_map)
  then have "k \<in> {''firm'', ''title'', ''location'', ''link''}" by (simp only: s)
  moreover from d kv have "map_of a k = Some v" by (rule map_of_is_SomeI)
  ultimately show ?thesis by (rule conjI)
qed

lemma py_eq_dicts:
  "py_eq (PDict a) (PDict b) \<longleftrightarrow>
     length a = length b \<and> (\<forall>(k, v)\<in>set a. \<exists>w. map_of b k = Some w \<and> py_eq v w)"
  by (auto simp: list_all_iff split: option.splits)

lemma same_listing_iff:
  "same_listing x y \<longleftrightarrow> (\<forall>f\<in>{''firm'', ''title'', ''location'', ''link''}. field_of x f = field_of y f)"
  by (simp add: same_listing_def)

lemma job_listing_py_eq:
  assumes x: "job_listing x" and y: "job_listing y"
  shows "py_eq x y \<longleftrightarrow> same_listing x y"
proof -
  define F where "F = {''firm'', ''title'', ''location'', ''link''}"
  from x obtain a where a: "x = PDict a" by (cases x) (simp_all add: job_listing_def)
  from y obtain b where b: "y = PDict b" by (cases y) (simp_all add: job_listing_def)
  note xa = x [unfolded a] and yb = y [unfolded b]
  have len: "length a = length b" using xa yb by (rule job_listing_length)
  have la: "\<And>f. f \<in> F \<Longrightarrow> map_of a f = Some (PStr (field_of x f))"
    unfolding F_def a using xa by (rule job_listing_lookup)
  have lb: "\<And>f. f \<in> F \<Longrightarrow> map_of b f = Some (PStr (field_of y f))"
    unfolding F_def b using yb by (rule job_listing_lookup)
  have ka: "\<And>k v. (k, v) \<in> set a \<Longrightarrow> k \<in> F \<and> map_of a k = Some v"
    unfolding F_def using xa by (rule job_listing_keys)
  have "py_eq x y \<longleftrightarrow> (\<forall>(k, v)\<in>set a. \<exists>w. map_of b k = Some w \<and> py_eq v w)"
    unfolding a b py_eq_dicts using len by simp
  also have "\<dots> \<longleftrightarrow> (\<forall>f\<in>F. field_of x f = field_of y f)"
  proof
    assume L: "\<forall>(k, v)\<in>set a. \<exists>w. map_of b k = Some w \<and> py_eq v w"
    show "\<forall>f\<in>F. field_of x f = field_of y f"
    proof
      fix f assume f: "f \<in> F"
      from la [OF f] have "(f, PStr (field_of x f)) \<in> set a" by (rule map_of_SomeD)
      with L have "\<exists>w. map_of b f = Some w \<and> py_eq (PStr (field_of x f)) w"
        by blast
      then have "py_eq (PStr (field_of x f)) (PStr (field_of y f))"
        unfolding lb [OF f] by blast
      then show "field_of x f = field_of y f" by simp
    qed
  next
    assume R: "\<forall>f\<in>F. field_of x f = field_of y f"
    have "\<And>k v. (k, v) \<in> set a \<Longrightarrow> \<exists>w. map_of b k = Some w \<and> py_eq v w"
    proof -
      fix k v assume kv: "(k, v) \<in> set a"
      from ka [OF kv] have k: "k \<in> F" and m: "map_of a k = Some v" by blast+
      from m la [OF k] have v: "v = PStr (field_of x k)" by simp
      from R k have e: "field_of x k = field_of y k" by (rule bspec)
      have "py_eq v (PStr (field_of y k))" unfolding v e by simp
      with lb [OF k] show "\<exists>w. map_of b k = Some w \<and> py_eq v w" by blast
    qed
    then show "\<forall>(k, v)\<in>set a. \<exists>w. map_of b k = Some w \<and> py_eq v w" by blast
  qed
  also have "\<dots> \<longleftrightarrow> same_listing x y"
    unfolding F_def same_listing_iff ..
  finally show ?thesis .
qed

section \<open>The diff engine: claims\<close>

text \<open>
  Claim C3. For every list of current listings and every list of seen listings, the diff
  engine returns the current listings that are equal to no seen listing, in the order of
  the input. Equality is Python's \<^verbatim>\<open>==\<close>; on job listings it is agreement on all four
  fields.
\<close>

theorem identify_new_jobs_spec:
  "identify_new_jobs jobs seen = filter (\<lambda>j. \<not> (\<exists>s\<in>set seen. py_eq s j)) jobs \<and>
   (list_all job_listing jobs \<and> list_all job_listing seen \<longrightarrow>
      identify_new_jobs jobs seen = filter (\<lambda>j. \<not> (\<exists>s\<in>set seen. same_listing s j)) jobs)"
proof (intro conjI impI)
  show g: "identify_new_jobs jobs seen = filter (\<lambda>j. \<not> (\<exists>s\<in>set seen. py_eq s j)) jobs"
    by (rule identify_new_jobs_filter)
  assume "list_all job_listing jobs \<and> list_all job_listing seen"
  then have e: "\<And>j s. j \<in> set jobs \<Longrightarrow> s \<in> set seen \<Longrightarrow> py_eq s j = same_listing s j"
    by (simp add: list_all_iff job_listing_py_eq)
  have "filter (\<lambda>j. \<not> (\<exists>s\<in>set seen. py_eq s j)) jobs =
        filter (\<lambda>j. \<not> (\<exists>s\<in>set seen. same_listing s j)) jobs"
    by (rule filter_cong [OF refl]) (simp add: e)
  with g show "identify_new_jobs jobs seen = filter (\<lambda>j. \<not> (\<exists>s\<in>set seen. same_listing s j)) jobs"
    by simp
qed

theorem identify_new_jobs_spec_witness:
  "list_all job_listing
     [PDict [(''firm'', PStr ''A''), (''title'', PStr ''X''), (''location'', PStr ''Y''), (''link'', PStr ''Z'')],
      PDict [(''firm'', PStr ''A''), (''title'', PStr ''W''), (''location'', PStr ''Y''), (''link'', PStr ''Z'')]] \<and>
   list_all job_listing
     [PDict [(''title'', PStr ''X''), (''firm'', PStr ''A''), (''location'', PStr ''Y''), (''link'', PStr ''Z'')]] \<and>
   identify_new_jobs
     [PDict [(''firm'', PStr ''A''), (''title'', PStr ''X''), (''location'', PStr ''Y''), (''link'', PStr ''Z'')],
      PDict [(''firm'', PStr ''A''), (''title'', PStr ''W''), (''location'', PStr ''Y''), (''link'', PStr ''Z'')]]
     [PDict [(''title'', PStr ''X''), (''firm'', PStr ''A''), (''location'', PStr ''Y''), (''link'', PStr ''Z'')]] =
   [PDict [(''firm'', PStr ''A''), (''title'', PStr ''W''), (''location'', PStr ''Y''), (''link'', PStr ''Z'')]]"
  using identify_new_jobs_spec
    [of "[PDict [(''firm'', PStr ''A''), (''title'', PStr ''X''), (''location'', PStr ''Y''), (''link'', PStr ''Z'')],
          PDict [(''firm'', PStr ''A''), (''title'', PStr ''W''), (''location'', PStr ''Y''), (''link'', PStr ''Z'')]]"
        "[PDict [(''title'', PStr ''X''), (''firm'', PStr ''A''), (''location'', PStr ''Y''), (''link'', PStr ''Z'')]]"]
  by (simp add: job_listing_def insert_commute)

text \<open>
  Claim C4. Diffing a list against the empty seen list returns the list unchanged, and
  diffing it against itself returns the empty list. No Python dictionary has a key twice,
  which the second part uses: every value is then equal to itself.
\<close>

theorem identify_new_jobs_empty_self:
  "identify_new_jobs J [] = J \<and> (list_all well_formed J \<longrightarrow> identify_new_jobs J J = [])"
  by (auto simp: identify_new_jobs_filter filter_empty_conv list_all_iff intro: py_eq_refl)

theorem identify_new_jobs_empty_self_witness:
  "list_all well_formed
     [PDict [(''firm'', PStr ''A''), (''title'', PStr ''X''), (''location'', PStr ''Y''), (''link'', PStr ''Z'')],
      PDict [(''firm'', PStr ''B''), (''title'', PInt 1)]] \<and>
   identify_new_jobs
     [PDict [(''firm'', PStr ''A''), (''title'', PStr ''X''), (''location'', PStr ''Y''), (''link'', PStr ''Z'')],
      PDict [(''firm'', PStr ''B''), (''title'', PInt 1)]]
     [PDict [(''firm'', PStr ''A''), (''title'', PStr ''X''), (''location'', PStr ''Y''), (''link'', PStr ''Z'')],
      PDict [(''firm'', PStr ''B''), (''title'', PInt 1)]] = []"
  using identify_new_jobs_empty_self
    [of "[PDict [(''firm'', PStr ''A''), (''title'', PStr ''X''), (''location'', PStr ''Y''), (''link'', PStr ''Z'')],
          PDict [(''firm'', PStr ''B''), (''title'', PInt 1)]]"]
  by simp

section \<open>The filter: lemmas\<close>

lemma str_in_sublist: "str_in sub s \<longleftrightarrow> sublist sub s"
  by (induction s) (auto simp: sublist_Cons_right)

lemma str_in_ci: "str_in (lower w) (lower t) \<longleftrightarrow> ci_substring w t"
  by (auto simp: str_in_sublist sublist_def ci_substring_def)

lemma any_in_field_str:
  "py_getitem job (PStr f) = Inr (PStr t) \<Longrightarrow>
   any_in_field ws job f = Inr (\<exists>w\<in>set ws. ci_substring w t)"
  by (induction ws) (auto simp: str_in_ci)

lemma job_matches_listing:
  assumes "job_listing job"
  shows "job_matches job K L = Inr (spec_keeps K L job)"
proof -
  obtain t where t: "py_getitem job (PStr ''title'') = Inr (PStr t)"
    using job_listing_field [OF assms, of "''title''"] by auto
  obtain l where l: "py_getitem job (PStr ''location'') = Inr (PStr l)"
    using job_listing_field [OF assms, of "''location''"] by auto
  show ?thesis
  proof (cases "\<exists>w\<in>set K. ci_substring w t")
    case True
    with t l show ?thesis
      by (simp add: job_matches_def any_in_field_str spec_keeps_def field_of_def)
  next
    case False
    with t l show ?thesis
      by (simp add: job_matches_def any_in_field_str spec_keeps_def field_of_def)
  qed
qed

lemma filter_jobs_listing:
  "list_all job_listing jobs \<Longrightarrow> filter_jobs jobs K L = Inr (filter (spec_keeps K L) jobs)"
  by (induction jobs) (simp_all add: job_matches_listing)

lemma filter_jobs_no_keywords: "filter_jobs jobs [] L = Inr []"
  by (induction jobs) (simp_all add: job_matches_def)

lemma filter_jobs_Inr:
  "filter_jobs jobs K L = Inr ys \<Longrightarrow> ys = filter (\<lambda>j. job_matches j K L = Inr True) jobs"
proof (induction jobs arbitrary: ys)
  case Nil
  then show ?case by simp
next
  case (Cons j jobs)
  from Cons.prems obtain b rest where b: "job_matches j K L = Inr b"
    and r: "filter_jobs jobs K L = Inr rest" and ys: "ys = (if b then j # rest else rest)"
    by (auto split: sum.splits)
  from Cons.IH [OF r] b ys show ?case by auto
qed

lemma filter_jobs_all_match:
  "\<forall>j\<in>set ys. job_matches j K L = Inr True \<Longrightarrow> filter_jobs ys K L = Inr ys"
  by (induction ys) simp_all

lemma filter_jobs_idem:
  assumes "filter_jobs jobs K L = Inr ys"
  shows "filter_jobs ys K L = Inr ys \<and> subseq ys jobs"
proof -
  from filter_jobs_Inr [OF assms]
  have ys: "ys = filter (\<lambda>j. job_matches j K L = Inr True) jobs" .
  then have "\<forall>j\<in>set ys. job_matches j K L = Inr True" by simp
  then have "filter_jobs ys K L = Inr ys" by (rule filter_jobs_all_match)
  moreover have "subseq ys jobs" unfolding ys by simp
  ultimately show ?thesis by simp
qed

section \<open>The filter: claims\<close>



text \<open>
  Claim C2. With an empty keyword list the filter returns the empty list, whatever the
  jobs are: nothing of a job is looked at. With an empty location list it returns the
  empty list on every list of job listings.
\<close>

theorem filter_jobs_empty_criteria:
  "filter_jobs jobs [] locations = Inr [] \<and>
   (list_all job_listing jobs \<longrightarrow> filter_jobs jobs keywords [] = Inr [])"
  by (simp add: filter_jobs_no_keywords filter_jobs_listing spec_keeps_def)

theorem filter_jobs_empty_criteria_witness:
  "filter_jobs
     [PDict [(''firm'', PStr ''Acme''), (''title'', PStr ''Software Engineer''),
             (''location'', PStr ''Remote, US''), (''link'', PStr '''')]]
     [] [''remote''] = Inr [] \<and>
   list_all job_listing
     [PDict [(''firm'', PStr ''Acme''), (''title'', PStr ''Software Engineer''),
             (''location'', PStr ''Remote, US''), (''link'', PStr '''')]] \<and>
   filter_jobs
     [PDict [(''firm'', PStr ''Acme''), (''title'', PStr ''Software Engineer''),
             (''location'', PStr ''Remote, US''), (''link'', PStr '''')]]
     [''engineer''] [] = Inr []"
proof -
  let ?jobs = "[PDict [(''firm'', PStr ''Acme''), (''title'', PStr ''Software Engineer''),
             (''location'', PStr ''Remote, US''), (''link'', PStr '''')]]"
  have h: "list_all job_listing ?jobs"
    by (simp add: job_listing_def insert_commute)
  from h filter_jobs_empty_criteria [of ?jobs "[''remote'']" "[''engineer'']"] show ?thesis
    by blast
qed

text \<open>
  Claim C10. Whenever the filter returns a list, filtering that list again with the same
  keywords and locations returns it unchanged, and it is a subsequence of the input; on
  every list of job listings the filter does return a list.
\<close>

theorem filter_jobs_idempotent:
  "(\<forall>ys. filter_jobs jobs keywords locations = Inr ys \<longrightarrow>
      filter_jobs ys keywords locations = Inr ys \<and> subseq ys jobs) \<and>
   (list_all job_listing jobs \<longrightarrow> (\<exists>ys. filter_jobs jobs keywords locations = Inr ys))"
  by (simp add: filter_jobs_idem filter_jobs_listing)

theorem filter_jobs_idempotent_witness:
  "list_all job_listing
     [PDict [(''firm'', PStr ''Acme''), (''title'', PStr ''Software Engineer''),
             (''location'', PStr ''Remote, US''), (''link'', PStr '''')],
      PDict [(''firm'', PStr ''Acme''), (''title'', PStr ''Sales Rep''),
             (''location'', PStr ''Remote''), (''link'', PStr '''')]] \<and>
   filter_jobs
     [PDict [(''firm'', PStr ''Acme''), (''title'', PStr ''Software Engineer''),
             (''location'', PStr ''Remote, US''), (''link'', PStr '''')],
      PDict [(''firm'', PStr ''Acme''), (''title'', PStr ''Sales Rep''),
             (''location'', PStr ''Remote''), (''link'', PStr '''')]]
     [''engineer''] [''remote''] =
   Inr [PDict [(''firm'', PStr ''Acme''), (''title'', PStr ''Software Engineer''),
               (''location'', PStr ''Remote, US''), (''link'', PStr '''')]] \<and>
   filter_jobs
     [PDict [(''firm'', PStr ''Acme''), (''title'', PStr ''Software Engineer''),
               (''location'', PStr ''Remote, US''), (''link'', PStr '''')]]
     [''engineer''] [''remote''] =
   Inr [PDict [(''firm'', PStr ''Acme''), (''title'', PStr ''Software Engineer''),
               (''location'', PStr ''Remote, US''), (''link'', PStr '''')]] \<and>
   subseq
     [PDict [(''firm'', PStr ''Acme''), (''title'', PStr ''Software Engineer''),
               (''location'', PStr ''Remote, US''), (''link'', PStr '''')]]
     [PDict [(''firm'', PStr ''Acme''), (''title'', PStr ''Software Engineer''),
             (''location'', PStr ''Remote, US''), (''link'', PStr '''')],
      PDict [(''firm'', PStr ''Acme''), (''title'', PStr ''Sales Rep''),
             (''location'', PStr ''Remote''), (''link'', PStr '''')]]"
proof -
  let ?jobs = "[PDict [(''firm'', PStr ''Acme''), (''title'', PStr ''Software Engineer''),
             (''location'', PStr ''Remote, US''), (''link'', PStr '''')],
      PDict [(''firm'', PStr ''Acme''), (''title'', PStr ''Sales Rep''),
             (''location'', PStr ''Remote''), (''link'', PStr '''')]]"
  have h: "list_all job_listing ?jobs"
    by (simp add: job_listing_def insert_commute)
  have v: "filter_jobs ?jobs [''engineer''] [''remote''] =
      Inr [PDict [(''firm'', PStr ''Acme''), (''title'', PStr ''Software Engineer''),
               (''location'', PStr ''Remote, US''), (''link'', PStr '''')]]"
    by code_simp
  from h v filter_jobs_idempotent [of ?jobs "[''engineer'']" "[''remote'']"] show ?thesis
    by blast
qed

section \<open>Persistence and the notifier: claims\<close>



text \<open>
  Claim C7. The notifier called with the empty list does nothing: the trace of events is
  empty, so no environment variable is read, no SMTP session is opened and no message
  is sent, and the call returns normally.
\<close>

theorem send_email_notification_empty:
  "send_email_notification fmt env server [] = ([], Inr ())"
  by (simp add: send_email_notification_def)

section \<open>The normalizer: lemmas\<close>

lemma append_jobs_spec:
  assumes t: "py_getitem params (PStr ''title'') = Inr (PStr title_key)"
    and l: "py_getitem params (PStr ''location'') = Inr (PStr location_key)"
    and k: "py_getitem params (PStr ''link'') = Inr (PStr link_key)"
    and n: "link_key \<noteq> []"
  shows "list_all (api_element title_key location_key link_key) items \<Longrightarrow>
    append_jobs items firm_name params jobs =
      Inr (jobs @ map (spec_record firm_name title_key location_key link_key) items)"
proof (induction items arbitrary: jobs)
  case Nil
  then show ?case by simp
next
  case (Cons job rest)
  from Cons.prems obtain vt vl vk where v:
    "py_getitem job (PStr title_key) = Inr vt"
    "py_getitem job (PStr location_key) = Inr vl"
    "py_getitem job (PStr link_key) = Inr vk"
    by (auto simp: api_element_def isl_def split: sum.splits) (metis sum.exhaust)+
  then have "normalize_job job firm_name params =
      Inr (spec_record firm_name title_key location_key link_key job)"
    using t l k n by (simp add: normalize_job_def spec_record_def entry_of_def)
  with Cons show ?case by simp
qed

lemma process_api_response_None: "process_api_response PNone firm_name params = Inl TypeError"
  by (simp add: process_api_response_def is_dict_def)

lemma call_job_listing_api_failure:
  "get url headers = Inr r \<Longrightarrow> status_code r \<noteq> 200 \<Longrightarrow>
   snd (call_job_listing_api get url headers) = Inr PNone"
  by (simp add: call_job_listing_api_def)

section \<open>The normalizer: claims\<close>

text \<open>
  Claim C8. With title, location and link fields configured, a response that is an array
  is mapped element by element to the records of the configured fields; a response that
  is an object is first replaced by its entry under the configured key, and that array
  is mapped in the same way.
\<close>

theorem process_api_response_descends:
  assumes "py_getitem params (PStr ''title'') = Inr (PStr title_key)"
    and "py_getitem params (PStr ''location'') = Inr (PStr location_key)"
    and "py_getitem params (PStr ''link'') = Inr (PStr link_key)"
    and "link_key \<noteq> []"
    and "list_all (api_element title_key location_key link_key) items"
  shows "process_api_response (PList items) firm_name params =
           Inr (map (spec_record firm_name title_key location_key link_key) items) \<and>
         (\<forall>d key. py_getitem params (PStr ''key'') = Inr (PStr key) \<and>
                   map_of d key = Some (PList items) \<longrightarrow>
            process_api_response (PDict d) firm_name params =
              Inr (map (spec_record firm_name title_key location_key link_key) items))"
  using append_jobs_spec [OF assms, of firm_name "[]"]
  by (simp add: process_api_response_def is_dict_def)

theorem process_api_response_descends_witness:
  "py_getitem (PDict [(''key'', PStr ''results''), (''title'', PStr ''t''),
                      (''location'', PStr ''l''), (''link'', PStr ''u'')]) (PStr ''title'') = Inr (PStr ''t'') \<and>
   py_getitem (PDict [(''key'', PStr ''results''), (''title'', PStr ''t''),
                      (''location'', PStr ''l''), (''link'', PStr ''u'')]) (PStr ''location'') = Inr (PStr ''l'') \<and>
   py_getitem (PDict [(''key'', PStr ''results''), (''title'', PStr ''t''),
                      (''location'', PStr ''l''), (''link'', PStr ''u'')]) (PStr ''link'') = Inr (PStr ''u'') \<and>
   ''u'' \<noteq> [] \<and>
   list_all (api_element ''t'' ''l'' ''u'')
     [PDict [(''id'', PInt 7), (''t'', PStr ''Engineer''), (''l'', PStr ''Remote''), (''u'', PStr ''http://x'')]] \<and>
   py_getitem (PDict [(''key'', PStr ''results''), (''title'', PStr ''t''),
                      (''location'', PStr ''l''), (''link'', PStr ''u'')]) (PStr ''key'') = Inr (PStr ''results'') \<and>
   map_of [(''count'', PInt 1),
           (''results'', PList [PDict [(''id'', PInt 7), (''t'', PStr ''Engineer''),
                                       (''l'', PStr ''Remote''), (''u'', PStr ''http://x'')]])]
          ''results'' =
     Some (PList [PDict [(''id'', PInt 7), (''t'', PStr ''Engineer''),
                         (''l'', PStr ''Remote''), (''u'', PStr ''http://x'')]]) \<and>
   process_api_response
     (PDict [(''count'', PInt 1),
             (''results'', PList [PDict [(''id'', PInt 7), (''t'', PStr ''Engineer''),
                                         (''l'', PStr ''Remote''), (''u'', PStr ''http://x'')]])])
     ''Acme''
     (PDict [(''key'', PStr ''results''), (''title'', PStr ''t''),
             (''location'', PStr ''l''), (''link'', PStr ''u'')]) =
   Inr [PDict [(''firm'', PStr ''Acme''), (''title'', PStr ''Engineer''),
               (''location'', PStr ''Remote''), (''link'', PStr ''http://x'')]]"
proof -
  let ?params = "PDict [(''key'', PStr ''results''), (''title'', PStr ''t''),
                      (''location'', PStr ''l''), (''link'', PStr ''u'')]"
  let ?items = "[PDict [(''id'', PInt 7), (''t'', PStr ''Engineer''), (''l'', PStr ''Remote''), (''u'', PStr ''http://x'')]]"
  let ?d = "[(''count'', PInt 1), (''results'', PList ?items)]"
  have h1: "py_getitem ?params (PStr ''title'') = Inr (PStr ''t'')" by simp
  have h2: "py_getitem ?params (PStr ''location'') = Inr (PStr ''l'')" by simp
  have h3: "py_getitem ?params (PStr ''link'') = Inr (PStr ''u'')" by simp
  have h4: "''u'' \<noteq> []" by simp
  have h5: "list_all (api_element ''t'' ''l'' ''u'') ?items" by (simp add: api_element_def)
  have h6: "py_getitem ?params (PStr ''key'') = Inr (PStr ''results'')" by simp
  have h7: "map_of ?d ''results'' = Some (PList ?items)" by simp
  have v: "map (spec_record ''Acme'' ''t'' ''l'' ''u'') ?items =
      [PDict [(''firm'', PStr ''Acme''), (''title'', PStr ''Engineer''),
               (''location'', PStr ''Remote''), (''link'', PStr ''http://x'')]]"
    by (simp add: spec_record_def entry_of_def)
  from process_api_response_descends [OF h1 h2 h3 h4 h5, of "''Acme''"] h6 h7
  have "process_api_response (PDict ?d) ''Acme'' ?params =
      Inr (map (spec_record ''Acme'' ''t'' ''l'' ''u'') ?items)"
    by blast
  with v h1 h2 h3 h4 h5 h6 h7 show ?thesis by simp
qed

text \<open>
  Claim C9. There is an input on which the collector, after a status other than 200,
  returns \<^verbatim>\<open>None\<close>, and the normalizer given that \<^verbatim>\<open>None\<close> raises a type error instead
  of returning the empty list; the main program passes the one to the other unguarded,
  so the loop body for that target raises the type error.
\<close>

theorem none_payload_type_error:
  "\<exists>get firm params keywords locations url headers.
     py_getitem params (PStr ''url'') = Inr url \<and>
     py_getitem params (PStr ''headers'') = Inr headers \<and>
     (\<exists>r. get url headers = Inr r \<and> status_code r \<noteq> 200) \<and>
     snd (call_job_listing_api get url headers) = Inr PNone \<and>
     process_api_response PNone firm params = Inl TypeError \<and>
     process_api_response PNone firm params \<noteq> Inr [] \<and>
     snd (api_target_jobs get firm params keywords locations) = Inl TypeError"
  apply (rule exI [of _ "\<lambda>u h. Inr \<lparr>status_code = 404, json = Inl JSONDecodeError\<rparr>"])
  apply (rule exI [of _ "''Acme''"])
  apply (rule exI [of _ "PDict [(''url'', PStr ''https://example.org/jobs''), (''headers'', PDict []),
                        (''title'', PStr ''t''), (''location'', PStr ''l''), (''link'', PStr ''u'')]"])
  apply (rule exI [of _ "[''engineer'']"])
  apply (rule exI [of _ "[''remote'']"])
  apply (rule exI [of _ "PStr ''https://example.org/jobs''"])
  apply (rule exI [of _ "PDict []"])
  apply (simp add: process_api_response_None call_job_listing_api_def api_target_jobs_def)
  done

section \<open>JSON text: strings\<close>


lemma char_of_div_mod: "char_of (16 * (of_char c div 16) + of_char c mod 16 :: nat) = c"
  by simp







section \<open>JSON text: integers\<close>

lemma of_char_digit: "d < 10 \<Longrightarrow> of_char (char_of (48 + d :: nat)) = (48 + d :: nat)"
  by simp













section \<open>JSON text: values\<close>

lemma skip_ws_Cons: "\<not> is_ws c \<Longrightarrow> skip_ws (c # s) = c # s"
  by (simp add: skip_ws_def)













lemma skip_ws_encode_string: "skip_ws (encode_string k @ r) = encode_string k @ r"
  by (simp add: encode_string_def skip_ws_Cons is_ws_def)










section \<open>Persistence: the round trip\<close>



section \<open>JSON text: the bound on nested calls\<close>

lemma skip_ws_length: "length (skip_ws s) \<le> length s"
  by (simp add: skip_ws_def length_dropWhile_le)

lemma scan_string_plain:
  "c \<noteq> CHR 0x22 \<Longrightarrow> c \<noteq> CHR 0x5C \<Longrightarrow>
   scan_string (c # cs) =
     (if (of_char c :: nat) < 32 then Inl JSONDecodeError
      else case scan_string cs of Inl err \<Rightarrow> Inl err | Inr (t, r) \<Rightarrow> Inr (c # t, r))"
  by simp

lemma scan_string_escape:
  "e \<noteq> CHR ''u'' \<Longrightarrow>
   scan_string (CHR 0x5C # e # cs) =
     (case unescape e of
        None \<Rightarrow> Inl JSONDecodeError
      | Some ch \<Rightarrow> (case scan_string cs of Inl err \<Rightarrow> Inl err | Inr (t, r) \<Rightarrow> Inr (ch # t, r)))"
  by simp

lemma scan_string_unicode:
  "scan_string (CHR 0x5C # CHR ''u'' # h1 # h2 # h3 # h4 # cs) =
     (case hex4_val h1 h2 h3 h4 of
        None \<Rightarrow> Inl JSONDecodeError
      | Some n \<Rightarrow>
          if n < 256 then
            (case scan_string cs of
               Inl err \<Rightarrow> Inl err
             | Inr (t, r) \<Rightarrow> Inr (char_of n # t, r))
          else Inl OutsideModel)"
  by simp

lemma scan_string_unicode_short:
  "length cs < 4 \<Longrightarrow> scan_string (CHR 0x5C # CHR ''u'' # cs) = Inl JSONDecodeError"
  by (auto split: list.splits)

lemma four_elements:
  "\<not> length cs < 4 \<Longrightarrow> \<exists>h1 h2 h3 h4 cs2. cs = h1 # h2 # h3 # h4 # cs2"
  by (cases cs; cases "tl cs"; cases "tl (tl cs)"; cases "tl (tl (tl cs))") auto

lemma scan_string_result:
  "scan_string cs \<noteq> Inl RecursionError \<and>
   (\<forall>t r. scan_string cs = Inr (t, r) \<longrightarrow> length r < length cs)"
proof (induction cs rule: length_induct)
  case (1 cs)
  have IH: "\<And>ys. length ys < length cs \<Longrightarrow>
      scan_string ys \<noteq> Inl RecursionError \<and>
      (\<forall>t r. scan_string ys = Inr (t, r) \<longrightarrow> length r < length ys)"
    using "1.IH" by blast
  have step: "\<And>ys (f :: string \<Rightarrow> string). length ys < length cs \<Longrightarrow>
      (case scan_string ys of Inl err \<Rightarrow> Inl err | Inr (t, r) \<Rightarrow> Inr (f t, r)) \<noteq> Inl RecursionError \<and>
      (\<forall>t r. (case scan_string ys of Inl err \<Rightarrow> Inl err | Inr (t, r) \<Rightarrow> Inr (f t, r)) = Inr (t, r)
          \<longrightarrow> length r < length cs)"
  proof -
    fix ys :: string and f :: "string \<Rightarrow> string"
    assume l: "length ys < length cs"
    from IH [OF l] show "(case scan_string ys of Inl err \<Rightarrow> Inl err | Inr (t, r) \<Rightarrow> Inr (f t, r)) \<noteq> Inl RecursionError \<and>
      (\<forall>t r. (case scan_string ys of Inl err \<Rightarrow> Inl err | Inr (t, r) \<Rightarrow> Inr (f t, r)) = Inr (t, r)
          \<longrightarrow> length r < length cs)"
      using l by (cases "scan_string ys") (auto simp del: scan_string.simps)
  qed
  show ?case
  proof (cases cs)
    case Nil
    then show ?thesis by simp
  next
    case (Cons c cs0)
    show ?thesis
    proof (cases "c = CHR 0x22")
      case True
      with Cons show ?thesis by simp
    next
      case q: False
      show ?thesis
      proof (cases "c = CHR 0x5C")
        case False
        have "length cs0 < length cs" using Cons by simp
        from step [OF this, of "\<lambda>t. c # t"] show ?thesis
          unfolding Cons scan_string_plain [OF q False] by (simp del: scan_string.simps)
      next
        case b: True
        show ?thesis
        proof (cases cs0)
          case Nil
          with Cons b show ?thesis by simp
        next
          case c1: (Cons e cs1)
          show ?thesis
          proof (cases "e = CHR ''u''")
            case False
            have "length cs1 < length cs" using Cons c1 by simp
            from step [OF this] show ?thesis
              unfolding Cons c1 b scan_string_escape [OF False]
              by (cases "unescape e") (simp_all del: scan_string.simps)
          next
            case u: True
            show ?thesis
            proof (cases "length cs1 < 4")
              case True
              then show ?thesis
                unfolding Cons c1 b u by (simp only: scan_string_unicode_short) simp
            next
              case False
              from four_elements [OF False] obtain h1 h2 h3 h4 cs2
                where cs1: "cs1 = h1 # h2 # h3 # h4 # cs2" by blast
              have "length cs2 < length cs" using Cons c1 cs1 by simp
              from step [OF this] show ?thesis
                unfolding Cons c1 b u cs1 scan_string_unicode
                by (cases "hex4_val h1 h2 h3 h4") (simp_all del: scan_string.simps)
            qed
          qed
        qed
      qed
    qed
  qed
qed

lemma scan_string_shorter: "scan_string cs = Inr (t, r) \<Longrightarrow> length r < length cs"
  using scan_string_result [of cs] by blast

lemma scan_string_fuel: "scan_string cs \<noteq> Inl RecursionError"
  using scan_string_result [of cs] by blast

lemma scan_digits_length: "scan_digits acc s = (n, r) \<Longrightarrow> length r \<le> length s"
proof (induction s arbitrary: acc)
  case Nil
  then show ?case by simp
next
  case (Cons c cs)
  show ?case
  proof (cases "is_digit c")
    case True
    with Cons.prems have "scan_digits (10 * acc + (of_char c - 48)) cs = (n, r)" by simp
    from Cons.IH [OF this] show ?thesis by simp
  next
    case False
    with Cons.prems show ?thesis by simp
  qed
qed

lemma scan_natural_shorter: "scan_natural s = Some (n, r) \<Longrightarrow> length r < length s"
proof (cases s)
  case Nil
  assume "scan_natural s = Some (n, r)"
  with Nil show ?thesis by (simp add: scan_natural_def)
next
  case (Cons c cs)
  assume a: "scan_natural s = Some (n, r)"
  show ?thesis
  proof (cases "c = CHR ''0''")
    case True
    with a Cons show ?thesis by (simp add: scan_natural_def)
  next
    case False
    with a Cons have d: "is_digit c" and "scan_digits 0 (c # cs) = (n, r)"
      by (simp_all add: scan_natural_def split: if_splits)
    then have "scan_digits (10 * 0 + (of_char c - 48)) cs = (n, r)" by simp
    from scan_digits_length [OF this] Cons show ?thesis by simp
  qed
qed

lemma scan_number_result:
  "scan_number s \<noteq> Inl RecursionError \<and>
   (\<forall>v r. scan_number s = Inr (v, r) \<longrightarrow> length r < length s)"
proof -
  define neg where "neg = (s \<noteq> [] \<and> hd s = CHR ''-'')"
  define s' where "s' = (if neg then tl s else s)"
  define fl where "fl = (prefix ''NaN'' s \<or> prefix ''Infinity'' s \<or> prefix ''-Infinity'' s)"
  have eq: "scan_number s =
      (case scan_natural s' of
         None \<Rightarrow> if fl then Inl OutsideModel else Inl JSONDecodeError
       | Some (n, r) \<Rightarrow>
           if starts_fraction r then Inl OutsideModel
           else Inr (PInt (if neg then - int n else int n), r))"
    unfolding scan_number_def Let_def neg_def s'_def fl_def ..
  have len: "length s' \<le> length s" by (simp add: s'_def)
  show ?thesis
  proof (cases "scan_natural s'")
    case None
    then show ?thesis unfolding eq by (cases fl) simp_all
  next
    case (Some p)
    obtain n r where p: "p = (n, r)" by (cases p)
    from Some p have "length r < length s'" by (intro scan_natural_shorter [of s' n r]) simp
    with len have "length r < length s" by simp
    with Some p show ?thesis unfolding eq by (cases "starts_fraction r") simp_all
  qed
qed

lemma scan_number_shorter: "scan_number s = Inr (v, r) \<Longrightarrow> length r < length s"
  using scan_number_result [of s] by blast

lemma scan_number_fuel: "scan_number s \<noteq> Inl RecursionError"
  using scan_number_result [of s] by blast

lemma skip_ws_Cons_length: "skip_ws r0 = c # r1 \<Longrightarrow> length r1 < length r0"
  using skip_ws_length [of r0] by simp

lemma parse_array_step:
  assumes V: "\<And>s v r. parse_value n s = Inr (v, r) \<Longrightarrow> length r < length s"
    and A: "\<And>s vs r. parse_array n s = Inr (vs, r) \<Longrightarrow> length r < length s"
    and a: "parse_array (Suc n) s = Inr (vs, r)"
  shows "length r < length s"
proof -
  from a obtain v r0 where pv: "parse_value n s = Inr (v, r0)"
    by (cases "parse_value n s") auto
  from a pv obtain c r1 where sk: "skip_ws r0 = c # r1"
    by (cases "skip_ws r0") auto
  from V [OF pv] skip_ws_Cons_length [OF sk] have l1: "length r1 < length s" by simp
  show ?thesis
  proof (cases "c = CHR '']''")
    case True
    with a pv sk have "r = r1" by simp
    with l1 show ?thesis by simp
  next
    case False
    with a pv sk obtain vs' where "parse_array n (skip_ws r1) = Inr (vs', r)"
      by (cases "parse_array n (skip_ws r1)") (auto split: if_splits)
    from A [OF this] skip_ws_length [of r1] l1 show ?thesis by simp
  qed
qed

lemma parse_object_step:
  assumes V: "\<And>s v r. parse_value n s = Inr (v, r) \<Longrightarrow> length r < length s"
    and O: "\<And>s ps r. parse_object n s = Inr (ps, r) \<Longrightarrow> length r < length s"
    and a: "parse_object (Suc n) s = Inr (ps, r)"
  shows "length r < length s"
proof -
  from a obtain q cs where s: "s = q # cs" by (cases s) auto
  from a s have q: "q = CHR 0x22" by (auto split: if_splits)
  from a s q obtain key r0 where ss: "scan_string cs = Inr (key, r0)"
    by (cases "scan_string cs") auto
  from a s q ss have pc: "prefix '':'' (skip_ws r0)" by (auto split: if_splits)
  define r0' where "r0' = skip_ws (tl (skip_ws r0))"
  have l0: "length r0' \<le> length r0"
    unfolding r0'_def using skip_ws_length [of "tl (skip_ws r0)"] skip_ws_length [of r0] by simp
  from a s q ss pc obtain v r1 where pv: "parse_value n r0' = Inr (v, r1)"
    unfolding r0'_def by (cases "parse_value n (skip_ws (tl (skip_ws r0)))") auto
  from a s q ss pc pv obtain c r2 where sk: "skip_ws r1 = c # r2"
    unfolding r0'_def by (cases "skip_ws r1") auto
  from scan_string_shorter [OF ss] l0 V [OF pv] skip_ws_Cons_length [OF sk] s
  have l2: "length r2 < length s" by simp
  show ?thesis
  proof (cases "c = CHR ''}''")
    case True
    with a s q ss pc pv sk have "r = r2" unfolding r0'_def by simp
    with l2 show ?thesis by simp
  next
    case False
    with a s q ss pc pv sk obtain ps' where "parse_object n (skip_ws r2) = Inr (ps', r)"
      unfolding r0'_def by (cases "parse_object n (skip_ws r2)") (auto split: if_splits)
    from O [OF this] skip_ws_length [of r2] l2 show ?thesis by simp
  qed
qed

lemma parse_value_step:
  assumes A: "\<And>s vs r. parse_array n s = Inr (vs, r) \<Longrightarrow> length r < length s"
    and O: "\<And>s ps r. parse_object n s = Inr (ps, r) \<Longrightarrow> length r < length s"
    and a: "parse_value (Suc n) s = Inr (v, r)"
  shows "length r < length s"
proof -
  from a obtain c cs where s: "s = c # cs" by (cases s) auto
  have tl_ws: "length (tl (skip_ws cs)) < length s"
    using skip_ws_length [of cs] s by (cases "skip_ws cs") simp_all
  show ?thesis
  proof (cases "c = CHR 0x22")
    case True
    with a s obtain t where "scan_string cs = Inr (t, r)"
      by (cases "scan_string cs") auto
    from scan_string_shorter [OF this] s show ?thesis by simp
  next
    case q: False
    show ?thesis
    proof (cases "c = CHR ''{''")
      case True
      show ?thesis
      proof (cases "prefix ''}'' (skip_ws cs)")
        case e: True
        with True a s have "r = tl (skip_ws cs)" by simp
        with tl_ws show ?thesis by simp
      next
        case e: False
        with True a s obtain ps where "parse_object n (skip_ws cs) = Inr (ps, r)"
          by (cases "parse_object n (skip_ws cs)") auto
        from O [OF this] skip_ws_length [of cs] s show ?thesis by simp
      qed
    next
      case b: False
      show ?thesis
      proof (cases "c = CHR ''[''")
        case True
        show ?thesis
        proof (cases "prefix '']'' (skip_ws cs)")
          case e: True
          with True a s have "r = tl (skip_ws cs)" by simp
          with tl_ws show ?thesis by simp
        next
          case e: False
          with True a s obtain vs where "parse_array n (skip_ws cs) = Inr (vs, r)"
            by (cases "parse_array n (skip_ws cs)") auto
          from A [OF this] skip_ws_length [of cs] s show ?thesis by simp
        qed
      next
        case k: False
        have eq: "parse_value (Suc n) s =
            (if prefix ''null'' s then Inr (PNone, drop 4 s)
             else if prefix ''true'' s then Inr (PBool True, drop 4 s)
             else if prefix ''false'' s then Inr (PBool False, drop 5 s)
             else scan_number s)"
          unfolding s using q b k by simp
        from s have d: "length (drop 4 s) < length s" "length (drop 5 s) < length s" by simp_all
        show ?thesis
        proof (cases "prefix ''null'' s \<or> prefix ''true'' s \<or> prefix ''false'' s")
          case True
          with a d show ?thesis unfolding eq by (auto split: if_splits)
        next
          case False
          with a have "scan_number s = Inr (v, r)" unfolding eq by simp
          then show ?thesis by (rule scan_number_shorter)
        qed
      qed
    qed
  qed
qed

lemma parse_shorter:
  "(\<forall>s v r. parse_value n s = Inr (v, r) \<longrightarrow> length r < length s) \<and>
   (\<forall>s vs r. parse_array n s = Inr (vs, r) \<longrightarrow> length r < length s) \<and>
   (\<forall>s ps r. parse_object n s = Inr (ps, r) \<longrightarrow> length r < length s)"
proof (induction n)
  case 0
  show ?case by simp
next
  case (Suc n)
  then have V: "\<And>s v r. parse_value n s = Inr (v, r) \<Longrightarrow> length r < length s"
    and A: "\<And>s vs r. parse_array n s = Inr (vs, r) \<Longrightarrow> length r < length s"
    and O: "\<And>s ps r. parse_object n s = Inr (ps, r) \<Longrightarrow> length r < length s"
    by blast+
  show ?case
  proof (intro conjI allI impI)
    fix s v r
    assume a: "parse_value (Suc n) s = Inr (v, r)"
    from A O a show "length r < length s" by (rule parse_value_step)
  next
    fix s vs r
    assume a: "parse_array (Suc n) s = Inr (vs, r)"
    from V A a show "length r < length s" by (rule parse_array_step)
  next
    fix s ps r
    assume a: "parse_object (Suc n) s = Inr (ps, r)"
    from V O a show "length r < length s" by (rule parse_object_step)
  qed
qed

lemma parse_value_shorter: "parse_value n s = Inr (v, r) \<Longrightarrow> length r < length s"
  using parse_shorter [of n] by blast

lemma parse_array_fuel_step:
  assumes V: "\<And>s. 2 * length s < n \<Longrightarrow> parse_value n s \<noteq> Inl RecursionError"
    and A: "\<And>s. 2 * length s + 1 < n \<Longrightarrow> parse_array n s \<noteq> Inl RecursionError"
    and l: "2 * length s + 1 < Suc n"
  shows "parse_array (Suc n) s \<noteq> Inl RecursionError"
proof (cases "parse_value n s")
  case (Inl e)
  from l have "2 * length s < n" by simp
  from V [OF this] Inl show ?thesis by simp
next
  case (Inr p)
  obtain v r0 where p: "p = (v, r0)" by (cases p)
  from Inr p have pv: "parse_value n s = Inr (v, r0)" by simp
  show ?thesis
  proof (cases "skip_ws r0")
    case Nil
    with pv show ?thesis by simp
  next
    case (Cons c r1)
    from parse_value_shorter [OF pv] skip_ws_Cons_length [OF Cons] skip_ws_length [of r1] l
    have "2 * length (skip_ws r1) + 1 < n" by simp
    from A [OF this] pv Cons show ?thesis
      by (cases "parse_array n (skip_ws r1)") auto
  qed
qed

lemma parse_object_fuel_step:
  assumes V: "\<And>s. 2 * length s < n \<Longrightarrow> parse_value n s \<noteq> Inl RecursionError"
    and O: "\<And>s. 2 * length s + 1 < n \<Longrightarrow> parse_object n s \<noteq> Inl RecursionError"
    and l: "2 * length s + 1 < Suc n"
  shows "parse_object (Suc n) s \<noteq> Inl RecursionError"
proof (cases s)
  case Nil
  then show ?thesis by simp
next
  case (Cons q cs)
  show ?thesis
  proof (cases "scan_string cs")
    case (Inl e)
    with Cons scan_string_fuel [of cs] show ?thesis by simp
  next
    case (Inr p)
    obtain key r0 where p: "p = (key, r0)" by (cases p)
    from Inr p have ss: "scan_string cs = Inr (key, r0)" by simp
    define r0' where "r0' = skip_ws (tl (skip_ws r0))"
    have l0: "length r0' \<le> length r0"
      unfolding r0'_def using skip_ws_length [of "tl (skip_ws r0)"] skip_ws_length [of r0] by simp
    from scan_string_shorter [OF ss] l0 Cons l have lv: "2 * length r0' < n" by simp
    show ?thesis
    proof (cases "parse_value n r0'")
      case (Inl e)
      with V [OF lv] Cons ss show ?thesis unfolding r0'_def by simp
    next
      case pr: (Inr p')
      obtain v r1 where p': "p' = (v, r1)" by (cases p')
      from pr p' have pv: "parse_value n r0' = Inr (v, r1)" by simp
      show ?thesis
      proof (cases "skip_ws r1")
        case Nil
        with Cons ss pv show ?thesis unfolding r0'_def by simp
      next
        case c2: (Cons c r2)
        from parse_value_shorter [OF pv] skip_ws_Cons_length [OF c2] skip_ws_length [of r2] lv
        have "2 * length (skip_ws r2) + 1 < n" by simp
        from O [OF this] Cons ss pv c2 show ?thesis
          unfolding r0'_def by (cases "parse_object n (skip_ws r2)") auto
      qed
    qed
  qed
qed

lemma parse_value_fuel_step:
  assumes A: "\<And>s. 2 * length s + 1 < n \<Longrightarrow> parse_array n s \<noteq> Inl RecursionError"
    and O: "\<And>s. 2 * length s + 1 < n \<Longrightarrow> parse_object n s \<noteq> Inl RecursionError"
    and l: "2 * length s < Suc n"
  shows "parse_value (Suc n) s \<noteq> Inl RecursionError"
proof (cases s)
  case Nil
  then show ?thesis by simp
next
  case (Cons c cs)
  from l Cons skip_ws_length [of cs] have lw: "2 * length (skip_ws cs) + 1 < n" by simp
  show ?thesis
  proof (cases "c = CHR 0x22")
    case True
    with Cons scan_string_fuel [of cs] show ?thesis
      by (cases "scan_string cs") auto
  next
    case q: False
    show ?thesis
    proof (cases "c = CHR ''{''")
      case True
      with Cons O [OF lw] show ?thesis
        by (cases "parse_object n (skip_ws cs)") auto
    next
      case b: False
      show ?thesis
      proof (cases "c = CHR ''[''")
        case True
        with Cons A [OF lw] show ?thesis
          by (cases "parse_array n (skip_ws cs)") auto
      next
        case k: False
        have eq: "parse_value (Suc n) s =
            (if prefix ''null'' s then Inr (PNone, drop 4 s)
             else if prefix ''true'' s then Inr (PBool True, drop 4 s)
             else if prefix ''false'' s then Inr (PBool False, drop 5 s)
             else scan_number s)"
          unfolding Cons using q b k by simp
        show ?thesis
          unfolding eq using scan_number_fuel [of s] by simp
      qed
    qed
  qed
qed

lemma parse_fuel:
  "(\<forall>s. 2 * length s < n \<longrightarrow> parse_value n s \<noteq> Inl RecursionError) \<and>
   (\<forall>s. 2 * length s + 1 < n \<longrightarrow> parse_array n s \<noteq> Inl RecursionError) \<and>
   (\<forall>s. 2 * length s + 1 < n \<longrightarrow> parse_object n s \<noteq> Inl RecursionError)"
proof (induction n)
  case 0
  show ?case by simp
next
  case (Suc n)
  then have V: "\<And>s. 2 * length s < n \<Longrightarrow> parse_value n s \<noteq> Inl RecursionError"
    and A: "\<And>s. 2 * length s + 1 < n \<Longrightarrow> parse_array n s \<noteq> Inl RecursionError"
    and O: "\<And>s. 2 * length s + 1 < n \<Longrightarrow> parse_object n s \<noteq> Inl RecursionError"
    by blast+
  show ?case
  proof (intro conjI allI impI)
    fix s :: string
    assume l: "2 * length s < Suc n"
    from A O l show "parse_value (Suc n) s \<noteq> Inl RecursionError" by (rule parse_value_fuel_step)
  next
    fix s :: string
    assume l: "2 * length s + 1 < Suc n"
    from V A l show "parse_array (Suc n) s \<noteq> Inl RecursionError" by (rule parse_array_fuel_step)
  next
    fix s :: string
    assume l: "2 * length s + 1 < Suc n"
    from V O l show "parse_object (Suc n) s \<noteq> Inl RecursionError" by (rule parse_object_fuel_step)
  qed
qed

text \<open>
  The bound on nested calls that \<open>json_loads\<close> starts the scanner with is never reached:
  the decoder does not fail for lack of it on any text.
\<close>

lemma json_loads_fuel: "json_loads doc \<noteq> Inl RecursionError"
proof -
  define res where "res = parse_value (2 * length doc + 1) (skip_ws doc)"
  have "2 * length (skip_ws doc) < 2 * length doc + 1"
    using skip_ws_length [of doc] by simp
  with parse_fuel [of "2 * length doc + 1"]
  have r: "res \<noteq> Inl RecursionError" unfolding res_def by blast
  have eq: "json_loads doc =
      (case res of Inl err \<Rightarrow> Inl err
       | Inr (v, r) \<Rightarrow> if skip_ws r = [] then Inr v else Inl JSONDecodeError)"
    unfolding json_loads_def res_def ..
  from r show ?thesis unfolding eq by (cases res) (auto split: if_splits)
qed

end
